theory Spec2Isabelle
  imports Complex_Main "HOL-Library.Sublist"
begin

section \<open>Python values, exceptions and the outside world\<close>

text \<open>
  The script \<^verbatim>\<open>src/processes/process_item.py\<close> works on what \<^verbatim>\<open>resp.json()\<close>
  returns: \<^verbatim>\<open>None\<close>, booleans, numbers, strings, lists and dictionaries. A
  dictionary is an association list read with \<open>map_of\<close>. Python floats are modelled
  as reals, Python strings as \<open>string\<close>.
\<close>

datatype pyval =
    PNone
  | PBool bool
  | PInt int
  | PFloat real
  | PStr string
  | PList "pyval list"
  | PDict "(string \<times> pyval) list"

text \<open>Python's truth value of an object, as used by \<^verbatim>\<open>if x\<close>, \<^verbatim>\<open>not x\<close> and \<^verbatim>\<open>x or y\<close>.\<close>

fun truthy :: "pyval \<Rightarrow> bool" where
  "truthy PNone = False"
| "truthy (PBool b) = b"
| "truthy (PInt i) = (i \<noteq> 0)"
| "truthy (PFloat x) = (x \<noteq> 0)"
| "truthy (PStr s) = (s \<noteq> [])"
| "truthy (PList xs) = (xs \<noteq> [])"
| "truthy (PDict kvs) = (kvs \<noteq> [])"

text \<open>
  The exceptions that can leave the modelled functions. \<open>OtherException\<close> stands for
  any exception class not listed by name.
\<close>

datatype error =
    RuntimeError string
  | IndexError
  | KeyError
  | TypeError
  | AttributeError
  | ValueError
  | JSONDecodeError
  | OtherException string

text \<open>
  An HTTP response as the script reads it: \<^verbatim>\<open>status_code\<close>, \<^verbatim>\<open>text\<close> (here \<open>text_of\<close>) and the
  result of \<^verbatim>\<open>json()\<close> (\<open>None\<close> when the body is not JSON and \<^verbatim>\<open>json()\<close> raises).
\<close>

record response =
  status_code :: int
  text_of :: string
  json :: "pyval option"

record request =
  url :: string
  headers :: "(string \<times> string) list"
  timeout :: int

text \<open>
  What one call of \<^verbatim>\<open>requests.get\<close> does: it returns a response, raises a
  \<^verbatim>\<open>requests.RequestException\<close> (with its message), or raises something else.
\<close>

datatype http_outcome =
    Response response
  | RequestException string
  | Raises error

text \<open>
  The effects of a run, in order: every \<^verbatim>\<open>requests.get\<close> issued and every
  \<^verbatim>\<open>time.sleep\<close> performed. Logger calls are not modelled.
\<close>

datatype event = Get request | Sleep real

fun is_Get :: "event \<Rightarrow> bool" where
  "is_Get (Get r) = True"
| "is_Get (Sleep d) = False"

definition n_gets :: "event list \<Rightarrow> nat" where
  "n_gets tr = length (filter is_Get tr)"

definition n_sleeps :: "event list \<Rightarrow> nat" where
  "n_sleeps tr = length (filter (\<lambda>e. \<not> is_Get e) tr)"

text \<open>
  The outside world: \<open>requests_get k rq\<close> is the outcome of the request \<open>rq\<close> when
  \<open>k\<close> requests were issued before it, and \<open>random_random k\<close> is the value of the
  call of \<^verbatim>\<open>random.random()\<close> that follows \<open>k\<close> earlier sleeps.
\<close>

record env =
  requests_get :: "nat \<Rightarrow> request \<Rightarrow> http_outcome"
  random_random :: "nat \<Rightarrow> real"

section \<open>Formatting an integer, as an f-string does\<close>

definition digit_char :: "nat \<Rightarrow> char" where
  "digit_char d = ''0123456789'' ! d"

function str_nat :: "nat \<Rightarrow> string" where
  "str_nat n = (if n < 10 then [digit_char n] else str_nat (n div 10) @ [digit_char (n mod 10)])"
  by pat_completeness auto
termination
  by (relation "measure (\<lambda>n. n)") auto

definition str_int :: "int \<Rightarrow> string" where
  "str_int i = (if i < 0 then CHR ''-'' # str_nat (nat (- i)) else str_nat (nat i))"

section \<open>safe_request\<close>

text \<open>
  The body of the \<^verbatim>\<open>try\<close> block of one attempt ends in one of three ways: it
  returns the response, it falls through to the retry code below the \<^verbatim>\<open>try\<close>, or
  an exception that is not caught leaves the function.
\<close>

datatype attempt_result = Return response | Retry | Propagate error

fun try_block :: "http_outcome \<Rightarrow> attempt_result" where
  "try_block (Response resp) =
     (if 200 \<le> status_code resp \<and> status_code resp < 300 then Return resp
      else if status_code resp = 429 then Retry
      else if status_code resp = 403 then
        (if sublist ''rateLimitExceeded'' (text_of resp) then Retry else Return resp)
      else if 400 \<le> status_code resp \<and> status_code resp < 500 then Return resp
      else if 500 \<le> status_code resp \<and> status_code resp < 600 then Retry
      else Return resp)"
| "try_block (RequestException msg) = Retry"
| "try_block (Raises e) = Propagate e"

text \<open>
  The \<^verbatim>\<open>for attempt in range(1, max_retries + 1)\<close> loop, over the list of the
  attempt numbers still to run. The empty list is the line after the loop.
  \<^verbatim>\<open>time.sleep\<close> raises \<^verbatim>\<open>ValueError\<close> on a negative duration.
\<close>

fun safe_request_loop ::
  "env \<Rightarrow> request \<Rightarrow> int \<Rightarrow> int list \<Rightarrow> int \<Rightarrow> event list \<Rightarrow> (error + response) \<times> event list"
where
  "safe_request_loop S rq max_retries [] backoff tr =
     (Inl (RuntimeError ''safe_request() fell through unexpectedly''), tr)"
| "safe_request_loop S rq max_retries (attempt # rest) backoff tr =
     (case try_block (requests_get S (n_gets tr) rq) of
        Return resp \<Rightarrow> (Inr resp, tr @ [Get rq])
      | Propagate e \<Rightarrow> (Inl e, tr @ [Get rq])
      | Retry \<Rightarrow>
          if attempt = max_retries then
            (Inl (RuntimeError (''Failed after '' @ str_int max_retries @ '' attempts: '' @ url rq)),
             tr @ [Get rq])
          else
            (let sleep_for = real_of_int backoff + random_random S (n_sleeps tr)
             in if sleep_for < 0 then (Inl ValueError, tr @ [Get rq])
                else safe_request_loop S rq max_retries rest (backoff * 2)
                       (tr @ [Get rq, Sleep sleep_for])))"

definition safe_request ::
  "env \<Rightarrow> string \<Rightarrow> (string \<times> string) list \<Rightarrow> int \<Rightarrow> int \<Rightarrow> event list
     \<Rightarrow> (error + response) \<times> event list"
where
  "safe_request S u hdrs max_retries tmo tr =
     safe_request_loop S \<lparr>url = u, headers = hdrs, timeout = tmo\<rparr> max_retries [1..max_retries] 1 tr"

section \<open>get_all_chromebooks\<close>

definition base_url :: string where
  "base_url =
     ''https://admin.googleapis.com/admin/directory/v1/'' @
     ''customer/my_customer/devices/chromeos?projection=FULL&maxResults=300''"

definition headers_for :: "string \<Rightarrow> (string \<times> string) list" where
  "headers_for access_token =
     [(''Authorization'', ''Bearer '' @ access_token), (''Accept'', ''application/json'')]"

text \<open>
  \<^verbatim>\<open>x.get(key, default)\<close>: only a dictionary has the method; on any other JSON value
  the attribute lookup raises \<^verbatim>\<open>AttributeError\<close>.
\<close>

fun py_get :: "pyval \<Rightarrow> string \<Rightarrow> pyval \<Rightarrow> error + pyval" where
  "py_get (PDict kvs) k dflt = Inr (case map_of kvs k of None \<Rightarrow> dflt | Some v \<Rightarrow> v)"
| "py_get v k dflt = Inl AttributeError"

text \<open>
  \<^verbatim>\<open>x[0]\<close>: the first element of a list, the first character of a string,
  \<^verbatim>\<open>IndexError\<close> when either is empty, \<^verbatim>\<open>KeyError\<close> on a dictionary (the keys of a
  JSON object are strings), \<^verbatim>\<open>TypeError\<close> on the values that cannot be subscripted.
\<close>

fun subscript0 :: "pyval \<Rightarrow> error + pyval" where
  "subscript0 (PList []) = Inl IndexError"
| "subscript0 (PList (x # xs)) = Inr x"
| "subscript0 (PStr []) = Inl IndexError"
| "subscript0 (PStr (c # cs)) = Inr (PStr [c])"
| "subscript0 (PDict kvs) = Inl KeyError"
| "subscript0 v = Inl TypeError"

text \<open>
  The elements \<^verbatim>\<open>list.extend(x)\<close> appends: those of a list, the characters of a
  string, the keys of a dictionary; \<^verbatim>\<open>TypeError\<close> when \<^verbatim>\<open>x\<close> is not iterable.
\<close>

fun py_iter :: "pyval \<Rightarrow> error + pyval list" where
  "py_iter (PList xs) = Inr xs"
| "py_iter (PStr s) = Inr (map (\<lambda>c. PStr [c]) s)"
| "py_iter (PDict kvs) = Inr (map PStr (remdups (map fst kvs)))"
| "py_iter v = Inl TypeError"

text \<open>
  \<^verbatim>\<open>f"{v}"\<close>: a string is inserted as it is. For the other values the text is
  Python's built-in \<^verbatim>\<open>str\<close>, a parameter \<open>str_of\<close> of the model.
\<close>

definition format_value :: "(pyval \<Rightarrow> string) \<Rightarrow> pyval \<Rightarrow> string" where
  "format_value str_of v = (case v of PStr s \<Rightarrow> s | _ \<Rightarrow> str_of v)"

definition page_url :: "(pyval \<Rightarrow> string) \<Rightarrow> pyval \<Rightarrow> string" where
  "page_url str_of next_page =
     base_url @ (if truthy next_page then ''&pageToken='' @ format_value str_of next_page else [])"

text \<open>
  The \<^verbatim>\<open>while True\<close> loop. It may run for ever (a server that always sends a
  cursor), so the result is an option, with \<open>None\<close> for a run that does not return.
  Each step is one line of the body: the request, \<^verbatim>\<open>resp.json()\<close>, the device list
  with its default, the \<^verbatim>\<open>print\<close> of \<^verbatim>\<open>page_devices[0]\<close> (only its failure is
  modelled, not the output), \<^verbatim>\<open>extend\<close>, the next cursor and the test of it. An
  exception leaves the function and the devices collected so far are lost. The
  variable \<^verbatim>\<open>page_number\<close> is read by the logger only and is left out.
\<close>

partial_function (option) get_all_chromebooks_loop ::
  "(pyval \<Rightarrow> string) \<Rightarrow> env \<Rightarrow> (string \<times> string) list \<Rightarrow> pyval \<Rightarrow> pyval list \<Rightarrow> event list
     \<Rightarrow> ((error + pyval list) \<times> event list) option"
where
  "get_all_chromebooks_loop str_of S hdrs next_page all_devices tr =
     (case safe_request S (page_url str_of next_page) hdrs 5 60 tr of
        (Inl e, tr1) \<Rightarrow> Some (Inl e, tr1)
      | (Inr resp, tr1) \<Rightarrow>
     (case json resp of
        None \<Rightarrow> Some (Inl JSONDecodeError, tr1)
      | Some payload \<Rightarrow>
     (case py_get payload ''chromeosdevices'' (PList []) of
        Inl e \<Rightarrow> Some (Inl e, tr1)
      | Inr page_devices \<Rightarrow>
     (case subscript0 page_devices of
        Inl e \<Rightarrow> Some (Inl e, tr1)
      | Inr first_device \<Rightarrow>
     (case py_iter page_devices of
        Inl e \<Rightarrow> Some (Inl e, tr1)
      | Inr items \<Rightarrow>
     (case py_get payload ''nextPageToken'' PNone of
        Inl e \<Rightarrow> Some (Inl e, tr1)
      | Inr next_page' \<Rightarrow>
          if \<not> truthy next_page' then Some (Inr (all_devices @ items), tr1)
          else get_all_chromebooks_loop str_of S hdrs next_page' (all_devices @ items) tr1))))))"

definition get_all_chromebooks ::
  "(pyval \<Rightarrow> string) \<Rightarrow> env \<Rightarrow> string \<Rightarrow> event list \<Rightarrow> ((error + pyval list) \<times> event list) option"
where
  "get_all_chromebooks str_of S access_token tr =
     get_all_chromebooks_loop str_of S (headers_for access_token) PNone [] tr"

section \<open>The rows built by process_item\<close>

text \<open>
  A \<^verbatim>\<open>datetime\<close> as \<^verbatim>\<open>datetime.fromisoformat\<close> returns it, and the \<^verbatim>\<open>date\<close> that
  its method \<^verbatim>\<open>date()\<close> gives: the calendar fields, without time of day and offset.
  The parser belongs to Python's library; it is a parameter \<open>fromisoformat\<close> of the
  model, with \<open>None\<close> where it raises \<^verbatim>\<open>ValueError\<close>.
\<close>

record date =
  year :: int
  month :: int
  day :: int

record datetime =
  dt_date :: date
  dt_hour :: int
  dt_minute :: int
  dt_second :: int
  dt_microsecond :: int
  dt_utcoffset :: "int option"

text \<open>\<^verbatim>\<open>s.replace(old, new)\<close> for a pattern \<^verbatim>\<open>old\<close> of one character.\<close>

definition py_replace :: "char \<Rightarrow> string \<Rightarrow> string \<Rightarrow> string" where
  "py_replace old new s = concat (map (\<lambda>c. if c = old then new else [c]) s)"

text \<open>
  Lines 53 to 62: the date of \<^verbatim>\<open>lastSync\<close>. Only a string has \<^verbatim>\<open>replace\<close>; on
  another truthy value the \<^verbatim>\<open>AttributeError\<close> is caught by \<^verbatim>\<open>except Exception\<close>
  like the parser's \<^verbatim>\<open>ValueError\<close>, and the date stays \<^verbatim>\<open>None\<close>.
\<close>

definition last_sync_date_of :: "(string \<Rightarrow> datetime option) \<Rightarrow> pyval \<Rightarrow> date option" where
  "last_sync_date_of fromisoformat last_sync_raw =
     (if truthy last_sync_raw then
        (case last_sync_raw of
           PStr s \<Rightarrow>
             (case fromisoformat (py_replace (CHR ''Z'') ''+00:00'' s) of
                None \<Rightarrow> None
              | Some parsed_dt \<Rightarrow> Some (dt_date parsed_dt))
         | _ \<Rightarrow> None)
      else None)"

text \<open>\<^verbatim>\<open>x or None\<close>.\<close>

definition or_None :: "pyval \<Rightarrow> pyval" where
  "or_None v = (if truthy v then v else PNone)"

record row =
  device_id :: pyval
  serial_number :: pyval
  mac_address :: pyval
  model :: pyval
  status :: pyval
  last_sync :: "date option"
  org_unit :: pyval

text \<open>The body of \<^verbatim>\<open>for d in devices\<close>: the tuple appended for one device.\<close>

definition device_row :: "(string \<Rightarrow> datetime option) \<Rightarrow> pyval \<Rightarrow> error + row" where
  "device_row fromisoformat d =
     (case py_get d ''lastSync'' PNone of Inl e \<Rightarrow> Inl e | Inr last_sync_raw \<Rightarrow>
     (case py_get d ''deviceId'' PNone of Inl e \<Rightarrow> Inl e | Inr v1 \<Rightarrow>
     (case py_get d ''serialNumber'' PNone of Inl e \<Rightarrow> Inl e | Inr v2 \<Rightarrow>
     (case py_get d ''macAddress'' PNone of Inl e \<Rightarrow> Inl e | Inr v3 \<Rightarrow>
     (case py_get d ''model'' PNone of Inl e \<Rightarrow> Inl e | Inr v4 \<Rightarrow>
     (case py_get d ''status'' PNone of Inl e \<Rightarrow> Inl e | Inr v5 \<Rightarrow>
     (case py_get d ''orgUnitPath'' PNone of Inl e \<Rightarrow> Inl e | Inr v7 \<Rightarrow>
        Inr \<lparr>device_id = v1,
             serial_number = v2,
             mac_address = or_None v3,
             model = or_None v4,
             status = v5,
             last_sync = last_sync_date_of fromisoformat last_sync_raw,
             org_unit = v7\<rparr>)))))))"

text \<open>The loop over the devices, with \<^verbatim>\<open>tvp_rows\<close> as the accumulator.\<close>

fun process_item_rows ::
  "(string \<Rightarrow> datetime option) \<Rightarrow> row list \<Rightarrow> pyval list \<Rightarrow> error + row list"
where
  "process_item_rows fromisoformat tvp_rows [] = Inr tvp_rows"
| "process_item_rows fromisoformat tvp_rows (d # devices) =
     (case device_row fromisoformat d of
        Inl e \<Rightarrow> Inl e
      | Inr r \<Rightarrow> process_item_rows fromisoformat (tvp_rows @ [r]) devices)"

section \<open>The trace of a run of retries\<close>

text \<open>
  What \<open>k\<close> retried attempts leave in the trace: a request and a sleep each, the
  sleep lasting the current backoff plus the jitter drawn, the backoff doubling from
  one attempt to the next. \<open>s\<close> counts the sleeps before.
\<close>

fun retry_trace :: "env \<Rightarrow> request \<Rightarrow> int \<Rightarrow> nat \<Rightarrow> nat \<Rightarrow> event list" where
  "retry_trace S rq b s 0 = []"
| "retry_trace S rq b s (Suc k) =
     Get rq # Sleep (real_of_int b + random_random S s) # retry_trace S rq (b * 2) (Suc s) k"

section \<open>The retryable outcomes, in the words of the specification\<close>

text \<open>
  The specification lists the outcomes of an attempt that are retried: a transport
  failure, status 429, status 403 with the rate-limit marker in the body, and the
  statuses 5xx. Lemma \<open>try_block_Retry_iff\<close> below shows that these are the outcomes
  on which the code falls through to its retry lines.
\<close>

definition spec_retryable :: "http_outcome \<Rightarrow> bool" where
  "spec_retryable out =
     (case out of
        RequestException msg \<Rightarrow> True
      | Raises e \<Rightarrow> False
      | Response r \<Rightarrow>
          status_code r = 429
          \<or> (status_code r = 403 \<and> sublist ''rateLimitExceeded'' (text_of r))
          \<or> (500 \<le> status_code r \<and> status_code r < 600))"

section \<open>Scripted servers for the examples\<close>

text \<open>
  A server that answers the \<open>k\<close>-th request with the \<open>k\<close>-th outcome of a list, and
  with a fixed outcome once the list is used up.
\<close>

definition scripted :: "http_outcome list \<Rightarrow> http_outcome \<Rightarrow> nat \<Rightarrow> request \<Rightarrow> http_outcome" where
  "scripted outs dflt k rq = (if k < length outs then outs ! k else dflt)"

section \<open>A server that sends a sequence of pages\<close>

text \<open>
  \<open>serves_pages str_of S hdrs np k pages\<close>: from its \<open>k\<close>-th request on, the server
  answers the request for the cursor \<open>np\<close> with the first page, and the request for
  each page's cursor with the next page, each time with a status in [200,300). A page
  is its device list and its cursor (\<^verbatim>\<open>None\<close> when the body has none). Every device
  list is non-empty, every page but the last has a truthy cursor, and the last has
  none.
\<close>

fun serves_pages ::
  "(pyval \<Rightarrow> string) \<Rightarrow> env \<Rightarrow> (string \<times> string) list \<Rightarrow> pyval \<Rightarrow> nat
     \<Rightarrow> (pyval list \<times> pyval) list \<Rightarrow> bool"
where
  "serves_pages str_of S hdrs np k [] = True"
| "serves_pages str_of S hdrs np k ((devs, cur) # ps) =
     (devs \<noteq> [] \<and> truthy cur = (ps \<noteq> [])
      \<and> (case requests_get S k \<lparr>url = page_url str_of np, headers = hdrs, timeout = 60\<rparr> of
           Response resp \<Rightarrow>
             200 \<le> status_code resp \<and> status_code resp < 300
             \<and> (case json resp of
                  Some (PDict kvs) \<Rightarrow>
                    map_of kvs ''chromeosdevices'' = Some (PList devs)
                    \<and> py_get (PDict kvs) ''nextPageToken'' PNone = Inr cur
                | _ \<Rightarrow> False)
         | _ \<Rightarrow> False)
      \<and> serves_pages str_of S hdrs cur (Suc k) ps)"

section \<open>Properties of safe_request\<close>

lemma n_gets_append: "n_gets (xs @ ys) = n_gets xs + n_gets ys"
  by (simp add: n_gets_def)

lemma n_sleeps_append: "n_sleeps (xs @ ys) = n_sleeps xs + n_sleeps ys"
  by (simp add: n_sleeps_def)

lemma n_gets_retry_trace: "n_gets (retry_trace S rq b s k) = k"
  by (induction k arbitrary: b s) (simp_all add: n_gets_def)

lemma n_sleeps_retry_trace: "n_sleeps (retry_trace S rq b s k) = k"
  by (induction k arbitrary: b s) (simp_all add: n_sleeps_def)

text \<open>
  \<open>k\<close> attempts that each end in a retry, none of them the last one allowed, take the
  loop from attempt \<open>a\<close> to attempt \<open>a + k\<close> with the backoff doubled \<open>k\<close> times.
\<close>

lemma skip_retries:
  assumes "\<forall>i<k. try_block (requests_get S (n_gets tr + i) rq) = Retry"
    and "\<forall>i<k. 0 \<le> random_random S (n_sleeps tr + i)"
    and "0 \<le> b" and "a + int k \<le> m"
  shows "safe_request_loop S rq m [a..m] b tr =
           safe_request_loop S rq m [a + int k..m] (b * 2 ^ k) (tr @ retry_trace S rq b (n_sleeps tr) k)"
  using assms
proof (induction k arbitrary: a b tr)
  case 0
  then show ?case by simp
next
  case (Suc k)
  have ne: "a \<noteq> m" and le: "a \<le> m" using Suc.prems(4) by auto
  have up: "[a..m] = a # [a + 1..m]" using le by (simp add: upto_rec1)
  have r0: "try_block (requests_get S (n_gets tr) rq) = Retry"
    using Suc.prems(1) by (metis add.right_neutral zero_less_Suc)
  have j0: "0 \<le> random_random S (n_sleeps tr)"
    using Suc.prems(2) by (metis add.right_neutral zero_less_Suc)
  let ?tr1 = "tr @ [Get rq, Sleep (real_of_int b + random_random S (n_sleeps tr))]"
  have step: "safe_request_loop S rq m [a..m] b tr = safe_request_loop S rq m [a + 1..m] (b * 2) ?tr1"
    using r0 j0 ne Suc.prems(3) by (simp add: up Let_def)
  have g: "n_gets ?tr1 = Suc (n_gets tr)" by (simp add: n_gets_def)
  have s: "n_sleeps ?tr1 = Suc (n_sleeps tr)" by (simp add: n_sleeps_def)
  have "safe_request_loop S rq m [a + 1..m] (b * 2) ?tr1 =
        safe_request_loop S rq m [a + 1 + int k..m] (b * 2 * 2 ^ k)
          (?tr1 @ retry_trace S rq (b * 2) (n_sleeps ?tr1) k)"
  proof (rule Suc.IH)
    show "\<forall>i<k. try_block (requests_get S (n_gets ?tr1 + i) rq) = Retry"
    proof (intro allI impI)
      fix i assume "i < k"
      then have "try_block (requests_get S (n_gets tr + Suc i) rq) = Retry"
        using Suc.prems(1) by (metis Suc_less_eq)
      then show "try_block (requests_get S (n_gets ?tr1 + i) rq) = Retry" by (simp add: g)
    qed
    show "\<forall>i<k. 0 \<le> random_random S (n_sleeps ?tr1 + i)"
    proof (intro allI impI)
      fix i assume "i < k"
      then have "0 \<le> random_random S (n_sleeps tr + Suc i)"
        using Suc.prems(2) by (metis Suc_less_eq)
      then show "0 \<le> random_random S (n_sleeps ?tr1 + i)" by (simp add: s)
    qed
    show "0 \<le> b * 2" using Suc.prems(3) by simp
    show "a + 1 + int k \<le> m" using Suc.prems(4) by simp
  qed
  then show ?case
    by (simp add: step s mult.assoc add.commute add.left_commute)
qed

lemma try_block_Retry_iff: "try_block out = Retry \<longleftrightarrow> spec_retryable out"
  by (cases out) (auto simp: spec_retryable_def)

lemma scripted_simps [simp]:
  "scripted [] dflt k rq = dflt"
  "scripted (x # outs) dflt 0 rq = x"
  "scripted (x # outs) dflt (Suc k) rq = scripted outs dflt k rq"
  by (simp_all add: scripted_def)

text \<open>
  C5: when the answer to the first request has a status in [200,300), safe_request
  returns that response after this one request, and no sleep is performed.
\<close>

theorem safe_request_success_first_attempt:
  assumes "1 \<le> max_retries"
    and "requests_get S (n_gets tr) \<lparr>url = u, headers = hdrs, timeout = tmo\<rparr> = Response resp"
    and "200 \<le> status_code resp" and "status_code resp < 300"
  shows "safe_request S u hdrs max_retries tmo tr =
           (Inr resp, tr @ [Get \<lparr>url = u, headers = hdrs, timeout = tmo\<rparr>])"
proof -
  have "[1..max_retries] = 1 # [2..max_retries]"
    using assms(1) by (simp add: upto_rec1)
  then show ?thesis
    using assms(2-4) by (simp add: safe_request_def)
qed

theorem safe_request_success_first_attempt_witness:
  "safe_request
     \<lparr>requests_get = (\<lambda>k rq. Response \<lparr>status_code = 200, text_of = ''ok'', json = None\<rparr>),
      random_random = (\<lambda>k. 0)\<rparr> ''u'' [] 5 60 [] =
   (Inr \<lparr>status_code = 200, text_of = ''ok'', json = None\<rparr>,
    [Get \<lparr>url = ''u'', headers = [], timeout = 60\<rparr>])"
  using safe_request_success_first_attempt
    [of 5 "\<lparr>requests_get = (\<lambda>k rq. Response \<lparr>status_code = 200, text_of = ''ok'', json = None\<rparr>),
            random_random = (\<lambda>k. 0)\<rparr>"
        "[]" "''u''" "[]" 60 "\<lparr>status_code = 200, text_of = ''ok'', json = None\<rparr>"]
  by simp

text \<open>
  C4: a response with status 403 whose body lacks the marker \<^verbatim>\<open>rateLimitExceeded\<close>,
  and a response with any other status 4xx except 429, is returned to the caller as it
  is: no exception, no further request and no sleep after it. This holds at every
  attempt, here the one that follows \<open>k\<close> retried attempts.
\<close>

theorem safe_request_terminal_4xx:
  assumes "int k < m"
    and "\<forall>i<k. spec_retryable (requests_get S (n_gets tr + i) \<lparr>url = u, headers = hdrs, timeout = tmo\<rparr>)"
    and "\<forall>i<k. 0 \<le> random_random S (n_sleeps tr + i)"
    and "requests_get S (n_gets tr + k) \<lparr>url = u, headers = hdrs, timeout = tmo\<rparr> = Response resp"
    and "(status_code resp = 403 \<and> \<not> sublist ''rateLimitExceeded'' (text_of resp))
         \<or> (400 \<le> status_code resp \<and> status_code resp < 500
             \<and> status_code resp \<noteq> 429 \<and> status_code resp \<noteq> 403)"
  shows "safe_request S u hdrs m tmo tr =
           (Inr resp,
            tr @ retry_trace S \<lparr>url = u, headers = hdrs, timeout = tmo\<rparr> 1 (n_sleeps tr) k
               @ [Get \<lparr>url = u, headers = hdrs, timeout = tmo\<rparr>])"
proof -
  let ?rq = "\<lparr>url = u, headers = hdrs, timeout = tmo\<rparr>"
  let ?tr = "tr @ retry_trace S ?rq 1 (n_sleeps tr) k"
  have "safe_request_loop S ?rq m [1..m] 1 tr = safe_request_loop S ?rq m [1 + int k..m] (1 * 2 ^ k) ?tr"
    using assms(1-3) by (intro skip_retries) (simp_all add: try_block_Retry_iff)
  moreover have "[1 + int k..m] = (1 + int k) # [1 + int k + 1..m]"
    using assms(1) by (simp add: upto_rec1)
  moreover have "n_gets ?tr = n_gets tr + k"
    by (simp add: n_gets_append n_gets_retry_trace)
  moreover have "try_block (Response resp) = Return resp"
    using assms(5) by auto
  ultimately show ?thesis
    using assms(4) by (simp add: safe_request_def)
qed

theorem safe_request_terminal_4xx_witness:
  "safe_request
     \<lparr>requests_get = scripted
        [Response \<lparr>status_code = 503, text_of = ''busy'', json = None\<rparr>,
         Response \<lparr>status_code = 403, text_of = ''Forbidden'', json = None\<rparr>]
        (RequestException ''down''),
      random_random = (\<lambda>k. 1 / 2)\<rparr> ''u'' [] 5 60 [] =
   (Inr \<lparr>status_code = 403, text_of = ''Forbidden'', json = None\<rparr>,
    [Get \<lparr>url = ''u'', headers = [], timeout = 60\<rparr>, Sleep (3 / 2),
     Get \<lparr>url = ''u'', headers = [], timeout = 60\<rparr>])"
  using safe_request_terminal_4xx
    [of 1 5 "\<lparr>requests_get = scripted
        [Response \<lparr>status_code = 503, text_of = ''busy'', json = None\<rparr>,
         Response \<lparr>status_code = 403, text_of = ''Forbidden'', json = None\<rparr>]
        (RequestException ''down''),
      random_random = (\<lambda>k. 1 / 2)\<rparr>" "[]" "''u''" "[]" 60
      "\<lparr>status_code = 403, text_of = ''Forbidden'', json = None\<rparr>"]
  by (simp add: spec_retryable_def n_gets_def n_sleeps_def sublist_Cons_right)

text \<open>
  C6: when the first two attempts end in a retryable failure (two 503s, say) and the
  third request is answered with a status in [200,300), safe_request returns that
  response after exactly two sleeps. The first sleep lasts 1 plus the first jitter
  drawn, the second 2 plus the second jitter: the backoff starts at 1 and is doubled
  after the sleep. The jitter is what \<^verbatim>\<open>random.random()\<close> returns, a value in [0,1).
\<close>

theorem safe_request_two_failures_then_success:
  assumes "3 \<le> m"
    and "spec_retryable (requests_get S (n_gets tr) \<lparr>url = u, headers = hdrs, timeout = tmo\<rparr>)"
    and "spec_retryable (requests_get S (n_gets tr + 1) \<lparr>url = u, headers = hdrs, timeout = tmo\<rparr>)"
    and "requests_get S (n_gets tr + 2) \<lparr>url = u, headers = hdrs, timeout = tmo\<rparr> = Response resp"
    and "200 \<le> status_code resp" and "status_code resp < 300"
    and "0 \<le> random_random S (n_sleeps tr)" and "random_random S (n_sleeps tr) < 1"
    and "0 \<le> random_random S (n_sleeps tr + 1)" and "random_random S (n_sleeps tr + 1) < 1"
  shows "safe_request S u hdrs m tmo tr =
           (Inr resp,
            tr @ [Get \<lparr>url = u, headers = hdrs, timeout = tmo\<rparr>,
                  Sleep (1 + random_random S (n_sleeps tr)),
                  Get \<lparr>url = u, headers = hdrs, timeout = tmo\<rparr>,
                  Sleep (2 + random_random S (n_sleeps tr + 1)),
                  Get \<lparr>url = u, headers = hdrs, timeout = tmo\<rparr>])"
proof -
  let ?rq = "\<lparr>url = u, headers = hdrs, timeout = tmo\<rparr>"
  let ?tr = "tr @ retry_trace S ?rq 1 (n_sleeps tr) 2"
  have r: "\<forall>i<2. try_block (requests_get S (n_gets tr + i) ?rq) = Retry"
    using assms(2,3) by (simp add: try_block_Retry_iff less_Suc_eq numeral_2_eq_2)
  have j: "\<forall>i<2. 0 \<le> random_random S (n_sleeps tr + i)"
    using assms(7,9) by (simp add: less_Suc_eq numeral_2_eq_2)
  have "safe_request_loop S ?rq m [1..m] 1 tr = safe_request_loop S ?rq m [1 + int 2..m] (1 * 2 ^ 2) ?tr"
    using assms(1) by (intro skip_retries r j) simp_all
  moreover have "[3..m] = 3 # [4..m]"
    using assms(1) by (simp add: upto_rec1)
  moreover have "n_gets ?tr = n_gets tr + 2"
    by (simp add: n_gets_append n_gets_retry_trace)
  moreover have "retry_trace S ?rq 1 (n_sleeps tr) 2 =
      [Get ?rq, Sleep (1 + random_random S (n_sleeps tr)), Get ?rq, Sleep (2 + random_random S (n_sleeps tr + 1))]"
    by (simp add: numeral_2_eq_2)
  ultimately show ?thesis
    using assms(4-6) by (simp add: safe_request_def)
qed

theorem safe_request_two_failures_then_success_witness:
  "safe_request
     \<lparr>requests_get = scripted
        [Response \<lparr>status_code = 503, text_of = ''busy'', json = None\<rparr>,
         Response \<lparr>status_code = 503, text_of = ''busy'', json = None\<rparr>,
         Response \<lparr>status_code = 200, text_of = ''ok'', json = None\<rparr>]
        (RequestException ''down''),
      random_random = (\<lambda>k. if k = 0 then 1 / 4 else 3 / 4)\<rparr> ''u'' [] 5 60 [] =
   (Inr \<lparr>status_code = 200, text_of = ''ok'', json = None\<rparr>,
    [Get \<lparr>url = ''u'', headers = [], timeout = 60\<rparr>, Sleep (5 / 4),
     Get \<lparr>url = ''u'', headers = [], timeout = 60\<rparr>, Sleep (11 / 4),
     Get \<lparr>url = ''u'', headers = [], timeout = 60\<rparr>])"
  using safe_request_two_failures_then_success
    [of 5 "\<lparr>requests_get = scripted
        [Response \<lparr>status_code = 503, text_of = ''busy'', json = None\<rparr>,
         Response \<lparr>status_code = 503, text_of = ''busy'', json = None\<rparr>,
         Response \<lparr>status_code = 200, text_of = ''ok'', json = None\<rparr>]
        (RequestException ''down''),
      random_random = (\<lambda>k. if k = 0 then 1 / 4 else 3 / 4)\<rparr>" "[]" "''u''" "[]" 60
      "\<lparr>status_code = 200, text_of = ''ok'', json = None\<rparr>"]
  by (simp add: spec_retryable_def n_gets_def n_sleeps_def numeral_2_eq_2)

text \<open>
  C7: when every one of the \<open>max_retries\<close> attempts ends in a retryable outcome
  (transport failure, 429, 403 with the marker, 5xx), safe_request raises a
  \<^verbatim>\<open>RuntimeError\<close> whose message is \<^verbatim>\<open>Failed after <max_retries> attempts: <url>\<close>,
  after \<open>max_retries\<close> requests and one sleep fewer.
\<close>

theorem safe_request_exhausted:
  assumes "1 \<le> m"
    and "\<forall>i<nat m. spec_retryable (requests_get S (n_gets tr + i) \<lparr>url = u, headers = hdrs, timeout = tmo\<rparr>)"
    and "\<forall>i<nat m - 1. 0 \<le> random_random S (n_sleeps tr + i)"
  shows "safe_request S u hdrs m tmo tr =
           (Inl (RuntimeError (''Failed after '' @ str_int m @ '' attempts: '' @ u)),
            tr @ retry_trace S \<lparr>url = u, headers = hdrs, timeout = tmo\<rparr> 1 (n_sleeps tr) (nat m - 1)
               @ [Get \<lparr>url = u, headers = hdrs, timeout = tmo\<rparr>])"
proof -
  let ?rq = "\<lparr>url = u, headers = hdrs, timeout = tmo\<rparr>"
  let ?k = "nat m - 1"
  let ?tr = "tr @ retry_trace S ?rq 1 (n_sleeps tr) ?k"
  have k: "1 + int ?k = m" using assms(1) by auto
  have "safe_request_loop S ?rq m [1..m] 1 tr = safe_request_loop S ?rq m [1 + int ?k..m] (1 * 2 ^ ?k) ?tr"
    using assms by (intro skip_retries) (simp_all add: try_block_Retry_iff)
  moreover have "[1 + int ?k..m] = [m]" by (simp only: k upto_single)
  moreover have "n_gets ?tr = n_gets tr + ?k"
    by (simp add: n_gets_append n_gets_retry_trace)
  moreover have "try_block (requests_get S (n_gets tr + ?k) ?rq) = Retry"
  proof -
    have "?k < nat m" using assms(1) by linarith
    then have "spec_retryable (requests_get S (n_gets tr + ?k) ?rq)"
      using assms(2) by blast
    then show ?thesis by (simp only: try_block_Retry_iff)
  qed
  ultimately show ?thesis
    by (simp add: safe_request_def)
qed

theorem safe_request_exhausted_witness:
  "safe_request
     \<lparr>requests_get = scripted [] (Response \<lparr>status_code = 503, text_of = ''busy'', json = None\<rparr>),
      random_random = (\<lambda>k. 1 / 2)\<rparr> ''u'' [] 5 60 [] =
   (Inl (RuntimeError ''Failed after 5 attempts: u''),
    [Get \<lparr>url = ''u'', headers = [], timeout = 60\<rparr>, Sleep (3 / 2),
     Get \<lparr>url = ''u'', headers = [], timeout = 60\<rparr>, Sleep (5 / 2),
     Get \<lparr>url = ''u'', headers = [], timeout = 60\<rparr>, Sleep (9 / 2),
     Get \<lparr>url = ''u'', headers = [], timeout = 60\<rparr>, Sleep (17 / 2),
     Get \<lparr>url = ''u'', headers = [], timeout = 60\<rparr>])"
  using safe_request_exhausted
    [of 5 "\<lparr>requests_get = scripted [] (Response \<lparr>status_code = 503, text_of = ''busy'', json = None\<rparr>),
      random_random = (\<lambda>k. 1 / 2)\<rparr>" "[]" "''u''" "[]" 60]
  by (simp add: spec_retryable_def n_gets_def n_sleeps_def str_int_def digit_char_def eval_nat_numeral)

text \<open>
  The events that the loop adds when the last attempt number of its list is
  \<open>max_retries\<close>: they end with a request, there is at most one request for each
  attempt number, and one sleep fewer than requests.
\<close>

lemma safe_request_loop_bounds:
  assumes "attempts \<noteq> []" and "last attempts = m"
  shows "\<exists>res evs. safe_request_loop S rq m attempts b tr = (res, tr @ evs)
           \<and> evs \<noteq> [] \<and> last evs = Get rq
           \<and> n_gets evs \<le> length attempts \<and> Suc (n_sleeps evs) = n_gets evs"
  using assms
proof (induction attempts arbitrary: b tr)
  case Nil
  then show ?case by simp
next
  case (Cons a rest)
  have single: "\<exists>evs. tr @ [Get rq] = tr @ evs \<and> evs \<noteq> [] \<and> last evs = Get rq
           \<and> n_gets evs \<le> length (a # rest) \<and> Suc (n_sleeps evs) = n_gets evs"
    by (rule exI [of _ "[Get rq]"]) (simp add: n_gets_def n_sleeps_def)
  show ?case
  proof (cases "try_block (requests_get S (n_gets tr) rq)")
    case (Return resp)
    then show ?thesis using single by simp
  next
    case (Propagate e)
    then show ?thesis using single by simp
  next
    case Retry
    show ?thesis
    proof (cases "a = m")
      case True
      then show ?thesis using Retry single by simp
    next
      case False
      let ?d = "real_of_int b + random_random S (n_sleeps tr)"
      show ?thesis
      proof (cases "?d < 0")
        case True
        then show ?thesis using Retry False single by simp
      next
        case nonneg: False
        have rest: "rest \<noteq> []" "last rest = m"
          using Cons.prems False by (auto split: if_splits)
        obtain res evs where run:
          "safe_request_loop S rq m rest (b * 2) (tr @ [Get rq, Sleep ?d]) = (res, (tr @ [Get rq, Sleep ?d]) @ evs)"
          and evs: "evs \<noteq> []" "last evs = Get rq" "n_gets evs \<le> length rest" "Suc (n_sleeps evs) = n_gets evs"
          using Cons.IH [OF rest] by blast
        have "safe_request_loop S rq m (a # rest) b tr = (res, tr @ (Get rq # Sleep ?d # evs))"
          using Retry False nonneg run by (simp add: Let_def)
        moreover have "last (Get rq # Sleep ?d # evs) = Get rq" using evs by simp
        moreover have "n_gets (Get rq # Sleep ?d # evs) \<le> length (a # rest)"
          using evs by (simp add: n_gets_def)
        moreover have "Suc (n_sleeps (Get rq # Sleep ?d # evs)) = n_gets (Get rq # Sleep ?d # evs)"
          using evs by (simp add: n_gets_def n_sleeps_def)
        ultimately show ?thesis by blast
      qed
    qed
  qed
qed

text \<open>
  C9: for \<open>max_retries \<ge> 1\<close> safe_request returns a response or raises after at
  least one and at most \<open>max_retries\<close> requests and at most \<open>max_retries - 1\<close> sleeps,
  and the last thing it does is a request, never a sleep. The function is total:
  the loop runs over the finite list of the attempt numbers.
\<close>

theorem safe_request_bounded:
  assumes "1 \<le> m"
  shows "\<exists>res evs. safe_request S u hdrs m tmo tr = (res, tr @ evs)
           \<and> evs \<noteq> [] \<and> last evs = Get \<lparr>url = u, headers = hdrs, timeout = tmo\<rparr>
           \<and> 1 \<le> n_gets evs \<and> int (n_gets evs) \<le> m \<and> int (n_sleeps evs) \<le> m - 1"
proof -
  let ?rq = "\<lparr>url = u, headers = hdrs, timeout = tmo\<rparr>"
  have ne: "[1..m] \<noteq> []" using assms by simp
  have "[1..m] = [1..m - 1] @ [m]" using assms by (simp add: upto_rec2)
  then have la: "last [1..m] = m" by (metis last_snoc)
  obtain res evs where run: "safe_request_loop S ?rq m [1..m] 1 tr = (res, tr @ evs)"
    and evs: "evs \<noteq> []" "last evs = Get ?rq" "n_gets evs \<le> length [1..m]" "Suc (n_sleeps evs) = n_gets evs"
    using safe_request_loop_bounds [OF ne la] by blast
  have len: "int (length [1..m]) = m" using assms by simp
  have "int (n_gets evs) \<le> m" using evs(3) len by linarith
  moreover have "int (n_sleeps evs) \<le> m - 1" using evs(3,4) len by linarith
  moreover have "1 \<le> n_gets evs" using evs(4) by linarith
  ultimately show ?thesis using run evs(1,2) by (auto simp: safe_request_def)
qed

theorem safe_request_bounded_witness:
  "\<exists>res evs.
     safe_request
       \<lparr>requests_get = scripted [] (Response \<lparr>status_code = 503, text_of = ''busy'', json = None\<rparr>),
        random_random = (\<lambda>k. 1 / 2)\<rparr> ''u'' [] 5 60 [] = (res, evs)
     \<and> evs \<noteq> [] \<and> last evs = Get \<lparr>url = ''u'', headers = [], timeout = 60\<rparr>
     \<and> 1 \<le> n_gets evs \<and> int (n_gets evs) \<le> 5 \<and> int (n_sleeps evs) \<le> 4"
  using safe_request_bounded
    [of 5 "\<lparr>requests_get = scripted [] (Response \<lparr>status_code = 503, text_of = ''busy'', json = None\<rparr>),
      random_random = (\<lambda>k. 1 / 2)\<rparr>" "''u''" "[]" 60 "[]"]
  by simp

section \<open>Properties of get_all_chromebooks\<close>

lemma safe_request_5_first:
  assumes "requests_get S (n_gets tr) \<lparr>url = u, headers = hdrs, timeout = 60\<rparr> = Response resp"
    and "200 \<le> status_code resp" and "status_code resp < 300"
  shows "safe_request S u hdrs 5 60 tr = (Inr resp, tr @ [Get \<lparr>url = u, headers = hdrs, timeout = 60\<rparr>])"
  using assms by (simp add: safe_request_def upto_rec1)

text \<open>
  When the server sends a sequence of pages, none of them with an empty device list,
  the loop returns the device lists one after the other, in the order of the pages,
  after one request for each page: the first for the cursor at hand, the others for
  the cursors of the pages before them.
\<close>

lemma get_all_chromebooks_loop_pages:
  assumes "pages \<noteq> []" and "serves_pages str_of S hdrs np (n_gets tr) pages"
  shows "get_all_chromebooks_loop str_of S hdrs np all_devices tr =
           Some (Inr (all_devices @ concat (map fst pages)),
                 tr @ map (\<lambda>c. Get \<lparr>url = page_url str_of c, headers = hdrs, timeout = 60\<rparr>)
                        (np # map snd (butlast pages)))"
  using assms
proof (induction pages arbitrary: np all_devices tr)
  case Nil
  then show ?case by simp
next
  case (Cons p ps)
  obtain devs cur where p: "p = (devs, cur)" by (cases p)
  let ?rq = "\<lparr>url = page_url str_of np, headers = hdrs, timeout = 60\<rparr>"
  from Cons.prems(2) p obtain resp kvs where
    devs: "devs \<noteq> []" and cur: "truthy cur = (ps \<noteq> [])"
    and out: "requests_get S (n_gets tr) ?rq = Response resp"
    and st: "200 \<le> status_code resp" "status_code resp < 300"
    and js: "json resp = Some (PDict kvs)"
    and dv: "map_of kvs ''chromeosdevices'' = Some (PList devs)"
    and np': "py_get (PDict kvs) ''nextPageToken'' PNone = Inr cur"
    and rest: "serves_pages str_of S hdrs cur (Suc (n_gets tr)) ps"
    by (auto split: http_outcome.splits option.splits pyval.splits)
  have req: "safe_request S (page_url str_of np) hdrs 5 60 tr = (Inr resp, tr @ [Get ?rq])"
    using out st by (rule safe_request_5_first)
  obtain d ds where dds: "devs = d # ds" using devs by (cases devs) auto
  show ?case
  proof (cases "ps = []")
    case True
    then have "\<not> truthy cur" using cur by simp
    then show ?thesis
      using req js dv np' dds True p
      by (subst get_all_chromebooks_loop.simps) simp
  next
    case False
    then have t: "truthy cur" using cur by simp
    have g: "n_gets (tr @ [Get ?rq]) = Suc (n_gets tr)" by (simp add: n_gets_def)
    have ih: "get_all_chromebooks_loop str_of S hdrs cur (all_devices @ devs) (tr @ [Get ?rq]) =
           Some (Inr ((all_devices @ devs) @ concat (map fst ps)),
                 (tr @ [Get ?rq]) @ map (\<lambda>c. Get \<lparr>url = page_url str_of c, headers = hdrs, timeout = 60\<rparr>)
                        (cur # map snd (butlast ps)))"
      using False rest by (intro Cons.IH) (simp_all add: g)
    have "get_all_chromebooks_loop str_of S hdrs np all_devices tr =
          get_all_chromebooks_loop str_of S hdrs cur (all_devices @ devs) (tr @ [Get ?rq])"
      using req js dv np' dds t
      by (subst get_all_chromebooks_loop.simps) simp
    then show ?thesis using ih False p by simp
  qed
qed

lemma get_all_chromebooks_pages:
  assumes "pages \<noteq> []" and "serves_pages str_of S (headers_for access_token) PNone (n_gets tr) pages"
  shows "\<exists>evs. get_all_chromebooks str_of S access_token tr = Some (Inr (concat (map fst pages)), tr @ evs)
           \<and> n_gets evs = length pages \<and> n_sleeps evs = 0"
proof -
  let ?evs = "map (\<lambda>c. Get \<lparr>url = page_url str_of c, headers = headers_for access_token, timeout = 60\<rparr>)
                (PNone # map snd (butlast pages))"
  have "get_all_chromebooks str_of S access_token tr = Some (Inr (concat (map fst pages)), tr @ ?evs)"
    using get_all_chromebooks_loop_pages [OF assms, of "[]"] by (simp add: get_all_chromebooks_def)
  moreover have "n_gets ?evs = length pages" using assms(1)
    by (simp add: n_gets_def o_def)
  moreover have "n_sleeps ?evs = 0"
    by (simp add: n_sleeps_def o_def)
  ultimately show ?thesis by blast
qed

text \<open>
  C1: for every sequence of pages ending in a page without cursor, get_all_chromebooks
  is to return the concatenation of the device lists after as many requests as there
  are pages. \<open>get_all_chromebooks_pages\<close> shows this when no device list is empty. A
  page with an empty device list breaks it: the line that prints \<^verbatim>\<open>page_devices[0]\<close>
  raises \<^verbatim>\<open>IndexError\<close>. Here the server sends one page, with no device and no
  cursor (a customer without devices); the result is the exception, not the empty
  list.
\<close>

theorem get_all_chromebooks_no_devices:
  "get_all_chromebooks (\<lambda>v. [])
     \<lparr>requests_get = scripted
        [Response \<lparr>status_code = 200, text_of = ''page 1'',
                   json = Some (PDict [(''chromeosdevices'', PList [])])\<rparr>]
        (RequestException ''down''),
      random_random = (\<lambda>k. 0)\<rparr> ''tok'' [] =
   Some (Inl IndexError, [Get \<lparr>url = base_url, headers = headers_for ''tok'', timeout = 60\<rparr>])"
  by (simp add: get_all_chromebooks_def get_all_chromebooks_loop.simps page_url_def
        safe_request_def n_gets_def upto_rec1)

text \<open>
  C2: a page with an empty device list and a cursor is to let the collection go on
  with the next page. In the code the \<^verbatim>\<open>print\<close> of \<^verbatim>\<open>page_devices[0]\<close> comes before
  the page is appended and the cursor is read, so such a page ends the run with
  \<^verbatim>\<open>IndexError\<close> after the first request, and the second page is never requested.
\<close>

theorem get_all_chromebooks_empty_page_with_cursor:
  "get_all_chromebooks (\<lambda>v. [])
     \<lparr>requests_get = scripted
        [Response \<lparr>status_code = 200, text_of = ''page 1'',
                   json = Some (PDict [(''chromeosdevices'', PList []), (''nextPageToken'', PStr ''X'')])\<rparr>,
         Response \<lparr>status_code = 200, text_of = ''page 2'',
                   json = Some (PDict [(''chromeosdevices'', PList [PDict [(''deviceId'', PStr ''d1'')]])])\<rparr>]
        (RequestException ''down''),
      random_random = (\<lambda>k. 0)\<rparr> ''tok'' [] =
   Some (Inl IndexError, [Get \<lparr>url = base_url, headers = headers_for ''tok'', timeout = 60\<rparr>])"
  by (simp add: get_all_chromebooks_def get_all_chromebooks_loop.simps page_url_def
        safe_request_def n_gets_def upto_rec1)

lemma map_of_filter_key:
  "map_of (filter (\<lambda>kv. fst kv \<noteq> k) kvs) k' = (if k' = k then None else map_of kvs k')"
  by (induction kvs) auto

text \<open>
  C10: a page whose \<^verbatim>\<open>nextPageToken\<close> is the empty string is treated as a page
  without \<^verbatim>\<open>nextPageToken\<close>. Take two servers whose answers to the request of this
  iteration differ in this only: the loop gives the same result for both, it ends
  with this page (the trace is the one left by the request, so nothing is requested
  after it), and the URL built for an empty cursor is the base URL, with no
  \<^verbatim>\<open>pageToken\<close> parameter, as for \<^verbatim>\<open>None\<close>.
\<close>

theorem empty_string_cursor_like_absent:
  assumes "safe_request S (page_url str_of next_page) hdrs 5 60 tr = (Inr resp, tr1)"
    and "safe_request S' (page_url str_of next_page) hdrs 5 60 tr = (Inr resp', tr1)"
    and "json resp = Some (PDict kvs)"
    and "map_of kvs ''nextPageToken'' = Some (PStr [])"
    and "json resp' = Some (PDict (filter (\<lambda>kv. fst kv \<noteq> ''nextPageToken'') kvs))"
  shows "get_all_chromebooks_loop str_of S hdrs next_page all_devices tr =
           get_all_chromebooks_loop str_of S' hdrs next_page all_devices tr
         \<and> (\<exists>res. get_all_chromebooks_loop str_of S hdrs next_page all_devices tr = Some (res, tr1))
         \<and> page_url str_of (PStr []) = base_url
         \<and> page_url str_of (PStr []) = page_url str_of PNone"
proof -
  let ?pd = "case map_of kvs ''chromeosdevices'' of None \<Rightarrow> PList [] | Some v \<Rightarrow> v"
  let ?out = "case subscript0 ?pd of
                Inl e \<Rightarrow> Inl e
              | Inr first_device \<Rightarrow>
                  (case py_iter ?pd of Inl e \<Rightarrow> Inl e | Inr items \<Rightarrow> Inr (all_devices @ items))"
  have a: "get_all_chromebooks_loop str_of S hdrs next_page all_devices tr = Some (?out, tr1)"
    using assms(1,3,4)
    by (subst get_all_chromebooks_loop.simps) (simp split: sum.splits)
  have b: "get_all_chromebooks_loop str_of S' hdrs next_page all_devices tr = Some (?out, tr1)"
    using assms(2,5)
    by (subst get_all_chromebooks_loop.simps) (simp add: map_of_filter_key split: sum.splits)
  show ?thesis using a b by (simp add: page_url_def)
qed

theorem empty_string_cursor_like_absent_witness:
  "get_all_chromebooks_loop (\<lambda>v. [])
     \<lparr>requests_get = scripted
        [Response \<lparr>status_code = 200, text_of = ''page 1'',
           json = Some (PDict [(''chromeosdevices'', PList [PDict [(''deviceId'', PStr ''d1'')]]),
                               (''nextPageToken'', PStr [])])\<rparr>]
        (RequestException ''down''),
      random_random = (\<lambda>k. 0)\<rparr> (headers_for ''tok'') PNone [] [] =
   Some (Inr [PDict [(''deviceId'', PStr ''d1'')]],
         [Get \<lparr>url = base_url, headers = headers_for ''tok'', timeout = 60\<rparr>])
   \<and> get_all_chromebooks_loop (\<lambda>v. [])
     \<lparr>requests_get = scripted
        [Response \<lparr>status_code = 200, text_of = ''page 1'',
           json = Some (PDict [(''chromeosdevices'', PList [PDict [(''deviceId'', PStr ''d1'')]])])\<rparr>]
        (RequestException ''down''),
      random_random = (\<lambda>k. 0)\<rparr> (headers_for ''tok'') PNone [] [] =
   Some (Inr [PDict [(''deviceId'', PStr ''d1'')]],
         [Get \<lparr>url = base_url, headers = headers_for ''tok'', timeout = 60\<rparr>])"
proof -
  let ?kvs = "[(''chromeosdevices'', PList [PDict [(''deviceId'', PStr ''d1'')]]), (''nextPageToken'', PStr [])]"
  let ?kvs' = "[(''chromeosdevices'', PList [PDict [(''deviceId'', PStr ''d1'')]])]"
  let ?resp = "\<lparr>status_code = 200, text_of = ''page 1'', json = Some (PDict ?kvs)\<rparr>"
  let ?resp' = "\<lparr>status_code = 200, text_of = ''page 1'', json = Some (PDict ?kvs')\<rparr>"
  let ?S = "\<lparr>requests_get = scripted [Response ?resp] (RequestException ''down''), random_random = (\<lambda>k. 0)\<rparr>"
  let ?S' = "\<lparr>requests_get = scripted [Response ?resp'] (RequestException ''down''), random_random = (\<lambda>k. 0)\<rparr>"
  let ?tr1 = "[Get \<lparr>url = base_url, headers = headers_for ''tok'', timeout = 60\<rparr>]"
  have h1: "safe_request ?S (page_url (\<lambda>v. []) PNone) (headers_for ''tok'') 5 60 [] = (Inr ?resp, ?tr1)"
    by (simp add: safe_request_def upto_rec1 n_gets_def page_url_def)
  have h2: "safe_request ?S' (page_url (\<lambda>v. []) PNone) (headers_for ''tok'') 5 60 [] = (Inr ?resp', ?tr1)"
    by (simp add: safe_request_def upto_rec1 n_gets_def page_url_def)
  have h3: "json ?resp = Some (PDict ?kvs)" by simp
  have h4: "map_of ?kvs ''nextPageToken'' = Some (PStr [])" by simp
  have h5: "json ?resp' = Some (PDict (filter (\<lambda>kv. fst kv \<noteq> ''nextPageToken'') ?kvs))" by simp
  have absent: "get_all_chromebooks_loop (\<lambda>v. []) ?S' (headers_for ''tok'') PNone [] [] =
      Some (Inr [PDict [(''deviceId'', PStr ''d1'')]], ?tr1)"
    using h2 by (subst get_all_chromebooks_loop.simps) simp
  show ?thesis
    using empty_string_cursor_like_absent [OF h1 h2 h3 h4 h5, of "[]"] absent by simp
qed

section \<open>Properties of the rows\<close>

text \<open>
  A dictionary always gives a row, so a list of dictionaries gives one row for each
  device, appended in order.
\<close>

lemma device_row_dict: "\<exists>r. device_row fromisoformat (PDict kvs) = Inr r"
  by (simp add: device_row_def)

lemma process_item_rows_dicts:
  assumes "\<forall>d \<in> set devices. \<exists>kvs. d = PDict kvs"
  shows "\<exists>rows. process_item_rows fromisoformat tvp_rows devices = Inr (tvp_rows @ rows)
           \<and> length rows = length devices"
  using assms
proof (induction devices arbitrary: tvp_rows)
  case Nil
  then show ?case by simp
next
  case (Cons d devices)
  then obtain kvs where d: "d = PDict kvs" by auto
  obtain r where r: "device_row fromisoformat d = Inr r"
    using device_row_dict d by blast
  obtain rows where "process_item_rows fromisoformat (tvp_rows @ [r]) devices = Inr ((tvp_rows @ [r]) @ rows)"
    and "length rows = length devices"
    using Cons.IH [of "tvp_rows @ [r]"] Cons.prems by auto
  then have "process_item_rows fromisoformat tvp_rows (d # devices) = Inr (tvp_rows @ (r # rows))
      \<and> length (r # rows) = length (d # devices)"
    using r by simp
  then show ?case by blast
qed

lemma py_replace_append: "py_replace old new (s @ t) = py_replace old new s @ py_replace old new t"
  by (simp add: py_replace_def)

lemma py_replace_absent: "old \<notin> set s \<Longrightarrow> py_replace old new s = s"
  by (induction s) (auto simp: py_replace_def)

lemma py_replace_Z_suffix:
  "CHR ''Z'' \<notin> set t \<Longrightarrow> py_replace (CHR ''Z'') ''+00:00'' (t @ ''Z'') = t @ ''+00:00''"
  by (simp add: py_replace_append py_replace_absent) (simp add: py_replace_def)

text \<open>
  C3, as amended: a dictionary never makes the row fail. A field that is absent gives
  \<^verbatim>\<open>None\<close> in each of the five optional columns. A falsy value (the empty string, say)
  gives \<^verbatim>\<open>None\<close> for \<open>mac_address\<close> and \<open>model\<close>, which are never the empty string;
  \<open>serial_number\<close>, \<open>status\<close> and \<open>org_unit\<close> carry the raw value as it is.
\<close>

theorem device_row_optional_strings:
  "\<exists>r. device_row fromisoformat (PDict kvs) = Inr r
     \<and> serial_number r = (case map_of kvs ''serialNumber'' of None \<Rightarrow> PNone | Some v \<Rightarrow> v)
     \<and> status r = (case map_of kvs ''status'' of None \<Rightarrow> PNone | Some v \<Rightarrow> v)
     \<and> org_unit r = (case map_of kvs ''orgUnitPath'' of None \<Rightarrow> PNone | Some v \<Rightarrow> v)
     \<and> mac_address r =
         (case map_of kvs ''macAddress'' of None \<Rightarrow> PNone | Some v \<Rightarrow> if truthy v then v else PNone)
     \<and> model r =
         (case map_of kvs ''model'' of None \<Rightarrow> PNone | Some v \<Rightarrow> if truthy v then v else PNone)
     \<and> mac_address r \<noteq> PStr [] \<and> model r \<noteq> PStr []"
  by (auto simp: device_row_def or_None_def split: option.splits)

theorem device_row_optional_strings_witness:
  "\<exists>r. device_row Map.empty
          (PDict [(''deviceId'', PStr ''d1''), (''macAddress'', PStr []), (''model'', PStr ''Acer''),
                  (''status'', PStr [])]) = Inr r
     \<and> serial_number r = PNone \<and> status r = PStr [] \<and> org_unit r = PNone
     \<and> mac_address r = PNone \<and> model r = PStr ''Acer''"
  using device_row_optional_strings
    [of Map.empty "[(''deviceId'', PStr ''d1''), (''macAddress'', PStr []), (''model'', PStr ''Acer''),
                  (''status'', PStr [])]"]
  by auto

text \<open>
  C3 as it is stated fails for \<open>serial_number\<close>: an empty string in \<^verbatim>\<open>serialNumber\<close>
  stays an empty string in the row, while the empty \<^verbatim>\<open>macAddress\<close> becomes \<^verbatim>\<open>None\<close>.
\<close>

theorem serial_number_empty_string_kept:
  "device_row Map.empty
     (PDict [(''deviceId'', PStr ''d1''), (''serialNumber'', PStr []), (''macAddress'', PStr [])]) =
   Inr \<lparr>device_id = PStr ''d1'', serial_number = PStr [], mac_address = PNone, model = PNone,
        status = PNone, last_sync = None, org_unit = PNone\<rparr>"
  by (simp add: device_row_def or_None_def last_sync_date_of_def)

text \<open>
  C8: for a dictionary the row is always built (no exception). Its other six fields
  are those of the row for the same dictionary without \<^verbatim>\<open>lastSync\<close>. The date is
  \<^verbatim>\<open>None\<close> when \<^verbatim>\<open>lastSync\<close> is absent, or is not a string, or is the empty string, or is
  a string that the parser rejects after \<^verbatim>\<open>Z\<close> is replaced by \<^verbatim>\<open>+00:00\<close>. When the parser
  accepts it, the date is the \<^verbatim>\<open>date()\<close> of the parsed value: its calendar fields,
  without time of day and offset.
\<close>

theorem device_row_last_sync:
  "\<exists>r r0. device_row fromisoformat (PDict kvs) = Inr r
     \<and> device_row fromisoformat (PDict (filter (\<lambda>kv. fst kv \<noteq> ''lastSync'') kvs)) = Inr r0
     \<and> last_sync r0 = None
     \<and> r\<lparr>last_sync := None\<rparr> = r0
     \<and> (map_of kvs ''lastSync'' = None
          \<or> (\<exists>v. map_of kvs ''lastSync'' = Some v
                 \<and> (\<forall>s. v = PStr s \<longrightarrow>
                        s = [] \<or> fromisoformat (py_replace (CHR ''Z'') ''+00:00'' s) = None))
         \<longrightarrow> last_sync r = None)
     \<and> (\<forall>s dt. map_of kvs ''lastSync'' = Some (PStr s) \<and> s \<noteq> []
                 \<and> fromisoformat (py_replace (CHR ''Z'') ''+00:00'' s) = Some dt
         \<longrightarrow> last_sync r = Some (dt_date dt))"
proof -
  let ?get = "\<lambda>m k. case map_of m k of None \<Rightarrow> PNone | Some v \<Rightarrow> v"
  let ?kvs0 = "filter (\<lambda>kv. fst kv \<noteq> ''lastSync'') kvs"
  let ?r = "\<lparr>device_id = ?get kvs ''deviceId'', serial_number = ?get kvs ''serialNumber'',
             mac_address = or_None (?get kvs ''macAddress''), model = or_None (?get kvs ''model''),
             status = ?get kvs ''status'',
             last_sync = last_sync_date_of fromisoformat (?get kvs ''lastSync''),
             org_unit = ?get kvs ''orgUnitPath''\<rparr>"
  have r: "device_row fromisoformat (PDict kvs) = Inr ?r"
    by (simp add: device_row_def)
  have r0: "device_row fromisoformat (PDict ?kvs0) = Inr (?r\<lparr>last_sync := None\<rparr>)"
    by (simp add: device_row_def map_of_filter_key last_sync_date_of_def)
  have none: "last_sync ?r = None"
    if "map_of kvs ''lastSync'' = None
          \<or> (\<exists>v. map_of kvs ''lastSync'' = Some v
                 \<and> (\<forall>s. v = PStr s \<longrightarrow>
                        s = [] \<or> fromisoformat (py_replace (CHR ''Z'') ''+00:00'' s) = None))"
    using that by (auto simp: last_sync_date_of_def split: pyval.splits option.splits)
  have some: "last_sync ?r = Some (dt_date dt)"
    if "map_of kvs ''lastSync'' = Some (PStr s)" "s \<noteq> []"
       "fromisoformat (py_replace (CHR ''Z'') ''+00:00'' s) = Some dt" for s dt
    using that by (simp add: last_sync_date_of_def)
  show ?thesis
    using r r0 none some by (intro exI [of _ ?r] exI [of _ "?r\<lparr>last_sync := None\<rparr>"]) simp
qed

theorem device_row_last_sync_witness:
  "(\<exists>r. device_row
          (\<lambda>s. if s = ''2024-03-05T10:20:30+00:00''
               then Some \<lparr>dt_date = \<lparr>year = 2024, month = 3, day = 5\<rparr>, dt_hour = 10, dt_minute = 20,
                          dt_second = 30, dt_microsecond = 0, dt_utcoffset = Some 0\<rparr>
               else None)
          (PDict [(''deviceId'', PStr ''d1''), (''lastSync'', PStr ''2024-03-05T10:20:30Z'')]) = Inr r
        \<and> last_sync r = Some \<lparr>year = 2024, month = 3, day = 5\<rparr>)
   \<and> (\<exists>r. device_row
          (\<lambda>s. if s = ''2024-03-05T10:20:30+00:00''
               then Some \<lparr>dt_date = \<lparr>year = 2024, month = 3, day = 5\<rparr>, dt_hour = 10, dt_minute = 20,
                          dt_second = 30, dt_microsecond = 0, dt_utcoffset = Some 0\<rparr>
               else None)
          (PDict [(''deviceId'', PStr ''d1''), (''lastSync'', PStr ''yesterday'')]) = Inr r
        \<and> last_sync r = None
        \<and> device_row
          (\<lambda>s. if s = ''2024-03-05T10:20:30+00:00''
               then Some \<lparr>dt_date = \<lparr>year = 2024, month = 3, day = 5\<rparr>, dt_hour = 10, dt_minute = 20,
                          dt_second = 30, dt_microsecond = 0, dt_utcoffset = Some 0\<rparr>
               else None)
          (PDict [(''deviceId'', PStr ''d1'')]) = Inr (r\<lparr>last_sync := None\<rparr>))"
  using device_row_last_sync
    [of "\<lambda>s. if s = ''2024-03-05T10:20:30+00:00''
               then Some \<lparr>dt_date = \<lparr>year = 2024, month = 3, day = 5\<rparr>, dt_hour = 10, dt_minute = 20,
                          dt_second = 30, dt_microsecond = 0, dt_utcoffset = Some 0\<rparr>
               else None"
        "[(''deviceId'', PStr ''d1''), (''lastSync'', PStr ''2024-03-05T10:20:30Z'')]"]
    device_row_last_sync
    [of "\<lambda>s. if s = ''2024-03-05T10:20:30+00:00''
               then Some \<lparr>dt_date = \<lparr>year = 2024, month = 3, day = 5\<rparr>, dt_hour = 10, dt_minute = 20,
                          dt_second = 30, dt_microsecond = 0, dt_utcoffset = Some 0\<rparr>
               else None"
        "[(''deviceId'', PStr ''d1''), (''lastSync'', PStr ''yesterday'')]"]
  by (auto simp: py_replace_def)

end
